theory Spec2Isabelle
  imports Main
begin

section \<open>The files the commands work on\<close>

text \<open>
  The repository holds the program at several stages of its development. Two of them
  implement commit and log: \<^verbatim>\<open>src/main.go\<close> (commit with a check for an already stored
  digest, checkout that looks the commit up) and \<^verbatim>\<open>src/unnamed/part_000\<close> (commit that
  clears the index, log read in reverse). Definitions taken from \<^verbatim>\<open>src/main.go\<close> keep the
  source's names; those of \<^verbatim>\<open>src/unnamed/part_000\<close> that differ carry the suffix
  \<open>_part0\<close>.

  The programs work on files. The model keeps the working tree as a map from the path,
  as the user wrote it, to a file's bytes or a directory, and the directory \<^verbatim>\<open>./vcs/\<close>
  as a record of its files; \<open>vcsDir = None\<close> is the state before the directory exists.
  A file of \<^verbatim>\<open>./vcs/\<close> cannot exist without the directory. The commit store
  \<^verbatim>\<open>./vcs/commits\<close> maps a digest to the directory of that name (\<open>None\<close>: no such
  directory) and that directory maps a staged path to the stored bytes.

  What the model leaves out: permissions and full disks (an open fails only when the
  file is absent, a read only on a directory), and path normalisation (two different
  strings are two different files, and no staged path lies inside \<^verbatim>\<open>./vcs/\<close>).
\<close>

datatype node = File string | Dir

record vcs_dir =
  configFile :: "string option"
  indexFile :: "string option"
  logFile :: "string option"
  commitsDir :: "string \<Rightarrow> (string \<Rightarrow> string option) option"

record fs =
  tree :: "string \<Rightarrow> node option"
  vcsDir :: "vcs_dir option"

text \<open>\<open>Fatal\<close> is \<^verbatim>\<open>log.Fatal\<close> (the process exits with status 1), \<open>Panic\<close> a run-time
  panic (an index out of range). A command's run is its error (\<open>None\<close> when \<^verbatim>\<open>main\<close>
  returns), what it wrote to standard output, and the files it leaves.\<close>

datatype error = Fatal | Panic

type_synonym run = "error option \<times> string \<times> fs"

abbreviation NL :: char where "NL \<equiv> CHR 0x0A"
abbreviation CR :: char where "CR \<equiv> CHR 0x0D"
abbreviation SQ :: char where "SQ \<equiv> CHR 0x27"

definition println :: "string \<Rightarrow> string" where
  "println x = x @ [NL]"

definition emptyDir :: vcs_dir where
  "emptyDir = \<lparr>configFile = None, indexFile = None, logFile = None, commitsDir = (\<lambda>h. None)\<rparr>"

text \<open>\<^verbatim>\<open>os.MkdirAll(vcsDir, os.ModePerm)\<close>\<close>

definition mkdirAll_vcsDir :: "fs \<Rightarrow> fs" where
  "mkdirAll_vcsDir s = (case vcsDir s of None \<Rightarrow> s\<lparr>vcsDir := Some emptyDir\<rparr> | Some d \<Rightarrow> s)"

text \<open>\<^verbatim>\<open>os.Open\<close> of a file of \<^verbatim>\<open>./vcs/\<close>: its contents, \<open>None\<close> when the open fails.\<close>

definition readVcs :: "(vcs_dir \<Rightarrow> string option) \<Rightarrow> fs \<Rightarrow> string option" where
  "readVcs f s = (case vcsDir s of None \<Rightarrow> None | Some d \<Rightarrow> f d)"

definition contents :: "string option \<Rightarrow> string" where
  "contents f = (case f of None \<Rightarrow> [] | Some data \<Rightarrow> data)"

subsection \<open>bufio.Scanner with the default split function ScanLines\<close>

text \<open>One call of \<^verbatim>\<open>Scan\<close> on the unread data: at the end of the data it returns false
  with no error (\<open>EOF\<close>); a line of \<^verbatim>\<open>bufio.MaxScanTokenSize\<close> bytes or more fills the
  buffer before its newline is seen and the scanner stops with \<^verbatim>\<open>ErrTooLong\<close>; otherwise
  the token is the line without its newline and without one trailing carriage return.\<close>

definition maxScanTokenSize :: nat where
  "maxScanTokenSize = 65536"

definition dropCR :: "string \<Rightarrow> string" where
  "dropCR data = (if data \<noteq> [] \<and> last data = CR then butlast data else data)"

datatype scan = Token string string | EOF | TooLong

definition scanStep :: "string \<Rightarrow> scan" where
  "scanStep data =
     (if data = [] then EOF
      else let line = takeWhile (\<lambda>c. c \<noteq> NL) data in
        if maxScanTokenSize \<le> length line then TooLong
        else Token (dropCR line) (tl (dropWhile (\<lambda>c. c \<noteq> NL) data)))"

text \<open>The loop \<^verbatim>\<open>for scanner.Scan() { ... scanner.Text() ... }\<close>: the tokens in order, and
  whether the scanner stopped on an error (which none of the loops looks at).\<close>

function scanLines :: "string \<Rightarrow> string list \<times> bool" where
  "scanLines data =
     (case scanStep data of
        EOF \<Rightarrow> ([], False)
      | TooLong \<Rightarrow> ([], True)
      | Token t rest \<Rightarrow> (t # fst (scanLines rest), snd (scanLines rest)))"
  by pat_completeness auto
termination
proof -
  have shorter: "length rest < length data" if "scanStep data = Token t rest" for data t rest
  proof -
    from that have ne: "data \<noteq> []" and r: "rest = tl (dropWhile (\<lambda>c. c \<noteq> NL) data)"
      by (auto simp: scanStep_def Let_def split: if_splits)
    have "length (dropWhile (\<lambda>c. c \<noteq> NL) data) \<le> length data"
      by (rule length_dropWhile_le)
    with ne r show ?thesis
      by (cases data) (auto split: if_splits)
  qed
  show ?thesis
    by (relation "measure length") (auto dest: shorter)
qed

declare scanLines.simps [simp del]

subsection \<open>strings.SplitN with the separator " "\<close>

text \<open>\<^verbatim>\<open>strings.SplitN(s, " ", n)\<close> for \<open>n \<ge> 0\<close>: at most \<open>n\<close> substrings, the last
  one the unsplit remainder.\<close>

fun splitN :: "string \<Rightarrow> nat \<Rightarrow> string list" where
  "splitN s 0 = []"
| "splitN s (Suc 0) = [s]"
| "splitN s (Suc (Suc n)) =
     (if CHR '' '' \<in> set s
      then takeWhile (\<lambda>c. c \<noteq> CHR '' '') s #
           splitN (tl (dropWhile (\<lambda>c. c \<noteq> CHR '' '') s)) (Suc n)
      else [s])"

section \<open>src/main.go\<close>

record Commit =
  Hash :: string
  Username :: string
  Message :: string

text \<open>\<^verbatim>\<open>func (c *Commit) show()\<close>\<close>

definition show_Commit :: "Commit \<Rightarrow> string" where
  "show_Commit c =
     println (''commit '' @ Hash c) @ println (''Author: '' @ Username c) @ println (Message c)"

definition setUsername :: "string \<Rightarrow> fs \<Rightarrow> fs" where
  "setUsername username s =
     (let s1 = mkdirAll_vcsDir s in
      case vcsDir s1 of
        None \<Rightarrow> s1
      | Some d \<Rightarrow> s1\<lparr>vcsDir := Some (d\<lparr>configFile := Some username\<rparr>)\<rparr>)"

text \<open>\<^verbatim>\<open>getUsername\<close> returns \<^verbatim>\<open>(string, error)\<close>; \<open>None\<close> is a non-nil error.\<close>

definition getUsername :: "fs \<Rightarrow> string option" where
  "getUsername s =
     (case readVcs configFile s of
        None \<Rightarrow> None
      | Some data \<Rightarrow>
          (case scanStep data of
             Token t rest \<Rightarrow> Some t
           | EOF \<Rightarrow> Some []
           | TooLong \<Rightarrow> None))"

definition doConfig :: "fs \<Rightarrow> string list \<Rightarrow> run" where
  "doConfig s args =
     (let s1 = (if length args = 1 then setUsername (args ! 0) s else s) in
      case getUsername s1 of
        Some username \<Rightarrow> (None, ''The username is '' @ username @ ''.'' @ [NL], s1)
      | None \<Rightarrow> (None, println ''Please, tell me who you are.'', s1))"

definition getTrackedFiles :: "fs \<Rightarrow> string list" where
  "getTrackedFiles s =
     (case readVcs indexFile s of
        None \<Rightarrow> []
      | Some data \<Rightarrow> fst (scanLines data))"

definition showTrackedFiles :: "fs \<Rightarrow> string" where
  "showTrackedFiles s =
     (let files = getTrackedFiles s in
      if length files = 0 then println ''Add a file to the index.''
      else println ''Tracked files:'' @ concat (map println files))"

definition doAdd :: "fs \<Rightarrow> string list \<Rightarrow> run" where
  "doAdd s args =
     (if length args \<noteq> 1 then (None, showTrackedFiles s, s)
      else
        let s1 = mkdirAll_vcsDir s; filename = args ! 0 in
        if tree s1 filename = None
        then (None, ''Can't find '' @ [SQ] @ filename @ [SQ] @ ''.'' @ [NL], s1)
        else
          (case vcsDir s1 of
             None \<Rightarrow> (Some Fatal, [], s1)
           | Some d \<Rightarrow>
               (None, ''The file '' @ [SQ] @ filename @ [SQ] @ '' is tracked.'' @ [NL],
                s1\<lparr>vcsDir :=
                  Some (d\<lparr>indexFile := Some (contents (indexFile d) @ filename @ [NL])\<rparr>)\<rparr>)))"

text \<open>The loop of \<^verbatim>\<open>getCommits\<close>: \<^verbatim>\<open>data[1]\<close> or \<^verbatim>\<open>data[2]\<close> of a line with fewer
  than two spaces is out of range, and the program panics.\<close>

fun getCommits_loop :: "string list \<Rightarrow> Commit list \<Rightarrow> error + Commit list" where
  "getCommits_loop [] commits = Inr commits"
| "getCommits_loop (line # lines) commits =
     (let data = splitN line 3 in
      if length data < 3 then Inl Panic
      else getCommits_loop lines
             (commits @ [\<lparr>Hash = data ! 0, Username = data ! 1, Message = data ! 2\<rparr>]))"

definition getCommits :: "fs \<Rightarrow> error + Commit list" where
  "getCommits s =
     (case readVcs logFile s of
        None \<Rightarrow> Inr []
      | Some data \<Rightarrow> getCommits_loop (fst (scanLines data)) [])"



fun findCommit_loop :: "Commit list \<Rightarrow> string \<Rightarrow> Commit option" where
  "findCommit_loop [] hash = None"
| "findCommit_loop (commit # commits) hash =
     (if Hash commit = hash then Some commit else findCommit_loop commits hash)"

definition findCommit :: "fs \<Rightarrow> string \<Rightarrow> error + Commit option" where
  "findCommit s hash =
     (case getCommits s of
        Inl e \<Rightarrow> Inl e
      | Inr commits \<Rightarrow> Inr (findCommit_loop commits hash))"

definition restoreCommit :: "Commit \<Rightarrow> string" where
  "restoreCommit commit = show_Commit commit"

definition doCheckout :: "fs \<Rightarrow> string list \<Rightarrow> run" where
  "doCheckout s args =
     (if length args \<noteq> 1 then (None, println ''Commit id was not passed.'', s)
      else
        (case findCommit s (args ! 0) of
           Inl e \<Rightarrow> (Some e, [], s)
         | Inr None \<Rightarrow> (None, println ''Commit does not exist.'', s)
         | Inr (Some commit) \<Rightarrow> (None, restoreCommit commit, s)))"

text \<open>The loop of \<^verbatim>\<open>computeHash\<close>: the bytes written to the hash so far. An absent file
  fails at \<^verbatim>\<open>os.Open\<close>, a directory at \<^verbatim>\<open>io.Copy\<close>.\<close>

fun computeHash_loop :: "fs \<Rightarrow> string list \<Rightarrow> string \<Rightarrow> error + string" where
  "computeHash_loop s [] written = Inr written"
| "computeHash_loop s (filename # files) written =
     (case tree s filename of
        None \<Rightarrow> Inl Fatal
      | Some Dir \<Rightarrow> Inl Fatal
      | Some (File bytes) \<Rightarrow> computeHash_loop s files (written @ bytes))"

text \<open>\<open>sha256Hex\<close> is \<^verbatim>\<open>hex.EncodeToString\<close> of the SHA-256 sum of the bytes written
  (\<^verbatim>\<open>crypto/sha256\<close> and \<^verbatim>\<open>encoding/hex\<close> are libraries): a parameter.\<close>

definition computeHash :: "(string \<Rightarrow> string) \<Rightarrow> fs \<Rightarrow> string list \<Rightarrow> error + string" where
  "computeHash sha256Hex s files =
     (case computeHash_loop s files [] of
        Inl e \<Rightarrow> Inl e
      | Inr written \<Rightarrow> Inr (sha256Hex written))"

definition hasChanges :: "fs \<Rightarrow> string \<Rightarrow> bool" where
  "hasChanges s hash =
     (case vcsDir s of
        None \<Rightarrow> True
      | Some d \<Rightarrow> (case commitsDir d hash of None \<Rightarrow> True | Some files \<Rightarrow> False))"

text \<open>\<^verbatim>\<open>os.MkdirAll(filepath.Dir(dest), os.ModePerm)\<close> for a destination inside the
  directory of the digest \<open>hash\<close>.\<close>

definition mkdirAll_commit :: "string \<Rightarrow> fs \<Rightarrow> fs" where
  "mkdirAll_commit hash s =
     (let s1 = mkdirAll_vcsDir s in
      case vcsDir s1 of
        None \<Rightarrow> s1
      | Some d \<Rightarrow>
          (case commitsDir d hash of
             None \<Rightarrow> s1\<lparr>vcsDir := Some (d\<lparr>commitsDir := (commitsDir d)(hash \<mapsto> Map.empty)\<rparr>)\<rparr>
           | Some files \<Rightarrow> s1))"

text \<open>\<^verbatim>\<open>copyFile(dest, src)\<close> with \<open>dest\<close> the path \<open>filename\<close> inside the directory of
  \<open>hash\<close>. \<^verbatim>\<open>os.Create\<close> leaves an empty file before \<^verbatim>\<open>io.Copy\<close> runs.\<close>

definition copyFile :: "string \<Rightarrow> string \<Rightarrow> string \<Rightarrow> fs \<Rightarrow> error option \<times> fs" where
  "copyFile hash filename src s =
     (let s1 = mkdirAll_commit hash s in
      case tree s1 src of
        None \<Rightarrow> (Some Fatal, s1)
      | Some source \<Rightarrow>
          (case vcsDir s1 of
             None \<Rightarrow> (Some Fatal, s1)
           | Some d \<Rightarrow>
               let files = (case commitsDir d hash of None \<Rightarrow> Map.empty | Some fl \<Rightarrow> fl) in
               (case source of
                  Dir \<Rightarrow>
                    (Some Fatal,
                     s1\<lparr>vcsDir := Some (d\<lparr>commitsDir :=
                       (commitsDir d)(hash \<mapsto> files(filename \<mapsto> []))\<rparr>)\<rparr>)
                | File bytes \<Rightarrow>
                    (None,
                     s1\<lparr>vcsDir := Some (d\<lparr>commitsDir :=
                       (commitsDir d)(hash \<mapsto> files(filename \<mapsto> bytes))\<rparr>)\<rparr>))))"

fun commitFiles :: "string \<Rightarrow> string list \<Rightarrow> fs \<Rightarrow> error option \<times> fs" where
  "commitFiles hash [] s = (None, s)"
| "commitFiles hash (filename # files) s =
     (case copyFile hash filename filename s of
        (Some e, s1) \<Rightarrow> (Some e, s1)
      | (None, s1) \<Rightarrow> commitFiles hash files s1)"

definition addLog :: "Commit \<Rightarrow> fs \<Rightarrow> error option \<times> fs" where
  "addLog c s =
     (case vcsDir s of
        None \<Rightarrow> (Some Fatal, s)
      | Some d \<Rightarrow>
          (None,
           s\<lparr>vcsDir := Some (d\<lparr>logFile :=
             Some (contents (logFile d) @
                   Hash c @ '' '' @ Username c @ '' '' @ Message c @ [NL])\<rparr>)\<rparr>))"

definition saveCommit ::
  "(string \<Rightarrow> string) \<Rightarrow> fs \<Rightarrow> string \<Rightarrow> string \<Rightarrow> (error + bool) \<times> fs" where
  "saveCommit sha256Hex s username message =
     (let files = getTrackedFiles s in
      case computeHash sha256Hex s files of
        Inl e \<Rightarrow> (Inl e, s)
      | Inr hash \<Rightarrow>
          if hasChanges s hash then
            (let commit = \<lparr>Hash = hash, Username = username, Message = message\<rparr> in
             case commitFiles hash files s of
               (Some e, s1) \<Rightarrow> (Inl e, s1)
             | (None, s1) \<Rightarrow>
                 (case addLog commit s1 of
                    (Some e, s2) \<Rightarrow> (Inl e, s2)
                  | (None, s2) \<Rightarrow> (Inr True, s2)))
          else (Inr False, s))"

definition doCommit :: "(string \<Rightarrow> string) \<Rightarrow> fs \<Rightarrow> string list \<Rightarrow> run" where
  "doCommit sha256Hex s args =
     (if length args \<noteq> 1 then (None, println ''Message was not passed.'', s)
      else
        (case getUsername s of
           None \<Rightarrow> (None, println ''Please, tell me who are you.'', s)
         | Some username \<Rightarrow>
             (case saveCommit sha256Hex s username (args ! 0) of
                (Inl e, s1) \<Rightarrow> (Some e, [], s1)
              | (Inr saved, s1) \<Rightarrow>
                  if saved then (None, println ''Changes are committed.'', s1)
                  else (None, println ''Nothing to commit.'', s1))))"

section \<open>src/unnamed/part_000\<close>

record Person =
  Name :: string

record Commit_part0 =
  Hash_part0 :: string
  Author :: Person
  Message_part0 :: string
  Files :: "string list"


text \<open>The loop of \<^verbatim>\<open>getCommits\<close>; a field the composite literal leaves out (\<^verbatim>\<open>Files\<close>) has
  its zero value, the nil slice.\<close>

fun getCommits_loop_part0 :: "string list \<Rightarrow> Commit_part0 list \<Rightarrow> error + Commit_part0 list" where
  "getCommits_loop_part0 [] commits = Inr commits"
| "getCommits_loop_part0 (line # lines) commits =
     (let data = splitN line 3 in
      if length data < 3 then Inl Panic
      else getCommits_loop_part0 lines
             (commits @ [\<lparr>Hash_part0 = data ! 0, Author = \<lparr>Name = data ! 1\<rparr>,
                          Message_part0 = data ! 2, Files = []\<rparr>]))"

definition getCommits_part0 :: "fs \<Rightarrow> error + Commit_part0 list" where
  "getCommits_part0 s =
     (case readVcs logFile s of
        None \<Rightarrow> Inr []
      | Some data \<Rightarrow>
          (case getCommits_loop_part0 (fst (scanLines data)) [] of
             Inl e \<Rightarrow> Inl e
           | Inr commits \<Rightarrow> Inr (rev commits)))"



definition computeHash_part0 ::
  "(string \<Rightarrow> string) \<Rightarrow> fs \<Rightarrow> Commit_part0 \<Rightarrow> error + Commit_part0" where
  "computeHash_part0 sha256Hex s c =
     (case computeHash_loop s (Files c) [] of
        Inl e \<Rightarrow> Inl e
      | Inr written \<Rightarrow> Inr (c\<lparr>Hash_part0 := sha256Hex written\<rparr>))"

definition commitFiles_part0 :: "Commit_part0 \<Rightarrow> fs \<Rightarrow> error option \<times> fs" where
  "commitFiles_part0 c s = commitFiles (Hash_part0 c) (Files c) s"

definition addLog_part0 :: "Commit_part0 \<Rightarrow> fs \<Rightarrow> error option \<times> fs" where
  "addLog_part0 c s =
     (case vcsDir s of
        None \<Rightarrow> (Some Fatal, s)
      | Some d \<Rightarrow>
          (None,
           s\<lparr>vcsDir := Some (d\<lparr>logFile :=
             Some (contents (logFile d) @
                   Hash_part0 c @ '' '' @ Name (Author c) @ '' '' @ Message_part0 c @ [NL])\<rparr>)\<rparr>))"

text \<open>\<^verbatim>\<open>os.Truncate(indexFile, 0)\<close>; the error of an absent file is ignored.\<close>

definition clearStage :: "fs \<Rightarrow> error option \<times> fs" where
  "clearStage s =
     (case vcsDir s of
        None \<Rightarrow> (None, s)
      | Some d \<Rightarrow>
          (case indexFile d of
             None \<Rightarrow> (None, s)
           | Some data \<Rightarrow> (None, s\<lparr>vcsDir := Some (d\<lparr>indexFile := Some []\<rparr>)\<rparr>)))"

text \<open>\<^verbatim>\<open>func (c *Commit) Save()\<close>: the commit with its hash set, or the error that ended
  the process, and the files left.\<close>

definition Save :: "(string \<Rightarrow> string) \<Rightarrow> Commit_part0 \<Rightarrow> fs \<Rightarrow> (error + Commit_part0) \<times> fs" where
  "Save sha256Hex c s =
     (case computeHash_part0 sha256Hex s c of
        Inl e \<Rightarrow> (Inl e, s)
      | Inr c1 \<Rightarrow>
          (case commitFiles_part0 c1 s of
             (Some e, s1) \<Rightarrow> (Inl e, s1)
           | (None, s1) \<Rightarrow>
               (case addLog_part0 c1 s1 of
                  (Some e, s2) \<Rightarrow> (Inl e, s2)
                | (None, s2) \<Rightarrow>
                    (case clearStage s2 of
                       (Some e, s3) \<Rightarrow> (Inl e, s3)
                     | (None, s3) \<Rightarrow> (Inr c1, s3)))))"

definition doCommit_part0 :: "(string \<Rightarrow> string) \<Rightarrow> fs \<Rightarrow> string list \<Rightarrow> run" where
  "doCommit_part0 sha256Hex s args =
     (if length args \<noteq> 1 then (None, println ''Message was not passed.'', s)
      else
        let commit = \<lparr>Hash_part0 = [], Author = \<lparr>Name = []\<rparr>, Message_part0 = args ! 0,
                      Files = getTrackedFiles s\<rparr> in
        if length (Files commit) = 0 then (None, println ''Nothing to commit.'', s)
        else
          (case getUsername s of
             None \<Rightarrow> (None, println ''Please, tell me who are you.'', s)
           | Some username \<Rightarrow>
               (case Save sha256Hex (commit\<lparr>Author := \<lparr>Name = username\<rparr>\<rparr>) s of
                  (Inl e, s1) \<Rightarrow> (Some e, [], s1)
                | (Inr c1, s1) \<Rightarrow> (None, println ''Changes are commited.'', s1))))"

definition doCheckout_part0 :: "fs \<Rightarrow> string list \<Rightarrow> run" where
  "doCheckout_part0 s args = (None, println ''Restore a file.'', s)"

section \<open>Predicates of the claims and example files\<close>

text \<open>The precondition of the log format as the specification words it: hash and author
  hold no space and no newline, the message no newline.\<close>

definition plain_fields :: "Commit \<Rightarrow> bool" where
  "plain_fields c =
     (CHR '' '' \<notin> set (Hash c) \<and> NL \<notin> set (Hash c) \<and>
      CHR '' '' \<notin> set (Username c) \<and> NL \<notin> set (Username c) \<and>
      NL \<notin> set (Message c))"

text \<open>What the scanner needs beyond that to hand the line back as it was written: the
  message does not end in a carriage return, and the line is shorter than the scanner's
  buffer.\<close>

definition scanner_keeps :: "Commit \<Rightarrow> bool" where
  "scanner_keeps c =
     ((Message c = [] \<or> last (Message c) \<noteq> CR) \<and>
      length (Hash c) + length (Username c) + length (Message c) + 2 < maxScanTokenSize)"

text \<open>The log read so far is whole: its last line ends in a newline and the scanner
  reaches its end without an error.\<close>

definition log_complete :: "fs \<Rightarrow> bool" where
  "log_complete s =
     (let data = contents (readVcs logFile s) in
      (data = [] \<or> last data = NL) \<and> snd (scanLines data) = False)"


text \<open>An entry of \<^verbatim>\<open>src/main.go\<close> as \<^verbatim>\<open>src/unnamed/part_000\<close> reads it from the same
  line.\<close>

definition as_part0 :: "Commit \<Rightarrow> Commit_part0" where
  "as_part0 c = \<lparr>Hash_part0 = Hash c, Author = \<lparr>Name = Username c\<rparr>,
                  Message_part0 = Message c, Files = []\<rparr>"

text \<open>Example files. \<open>exampleHex\<close> stands in for the digest where an example needs a
  concrete one; every theorem below that has a \<open>sha256Hex\<close> holds for any function.
  \<open>fs0\<close>: the file \<^verbatim>\<open>a.txt\<close> holds "hello" and the user alice is configured.
  \<open>fs_staged\<close>: \<^verbatim>\<open>a.txt\<close> was added. \<open>fs_committed\<close>: it was committed by
  \<^verbatim>\<open>src/main.go\<close> with the message "first". \<open>fs_modified\<close>: \<^verbatim>\<open>a.txt\<close> was then
  changed to "bye". \<open>fs_two_commits\<close>: the change was committed too. \<open>fs_anonymous\<close>: the
  configured user name is the empty string. \<open>fs_unconfigured\<close>: no user name was ever
  configured.\<close>

definition exampleHex :: "string \<Rightarrow> string" where
  "exampleHex written = ''h'' @ written"

definition fs0 :: fs where
  "fs0 = \<lparr>tree = [''a.txt'' \<mapsto> File ''hello''],
          vcsDir = Some (emptyDir\<lparr>configFile := Some ''alice''\<rparr>)\<rparr>"

definition fs_staged :: fs where
  "fs_staged = \<lparr>tree = [''a.txt'' \<mapsto> File ''hello''],
     vcsDir = Some (emptyDir\<lparr>configFile := Some ''alice'', indexFile := Some (''a.txt'' @ [NL])\<rparr>)\<rparr>"

definition fs_committed :: fs where
  "fs_committed = \<lparr>tree = [''a.txt'' \<mapsto> File ''hello''],
     vcsDir = Some \<lparr>configFile = Some ''alice'', indexFile = Some (''a.txt'' @ [NL]),
       logFile = Some (''hhello alice first'' @ [NL]),
       commitsDir = [''hhello'' \<mapsto> [''a.txt'' \<mapsto> ''hello'']]\<rparr>\<rparr>"

definition fs_modified :: fs where
  "fs_modified = fs_committed\<lparr>tree := [''a.txt'' \<mapsto> File ''bye'']\<rparr>"

definition fs_two_commits :: fs where
  "fs_two_commits = \<lparr>tree = [''a.txt'' \<mapsto> File ''bye''],
     vcsDir = Some \<lparr>configFile = Some ''alice'', indexFile = Some (''a.txt'' @ [NL]),
       logFile = Some (''hhello alice first'' @ [NL] @ ''hbye alice second try'' @ [NL]),
       commitsDir = [''hhello'' \<mapsto> [''a.txt'' \<mapsto> ''hello''],
                     ''hbye'' \<mapsto> [''a.txt'' \<mapsto> ''bye'']]\<rparr>\<rparr>"

definition fs_anonymous :: fs where
  "fs_anonymous = \<lparr>tree = [''a.txt'' \<mapsto> File ''hello''],
     vcsDir = Some (emptyDir\<lparr>configFile := Some [], indexFile := Some (''a.txt'' @ [NL])\<rparr>)\<rparr>"

definition fs_unconfigured :: fs where
  "fs_unconfigured = \<lparr>tree = [''a.txt'' \<mapsto> File ''hello''],
     vcsDir = Some (emptyDir\<lparr>indexFile := Some (''a.txt'' @ [NL])\<rparr>)\<rparr>"

section \<open>Facts about the scanner and the log format\<close>

lemma scanLines_Nil: "scanLines [] = ([], False)"
  by (simp add: scanLines.simps scanStep_def)

lemma scanStep_line:
  assumes "NL \<notin> set line" and "length line < maxScanTokenSize"
  shows "scanStep (line @ NL # rest) = Token (dropCR line) rest"
proof -
  have t: "takeWhile (\<lambda>c. c \<noteq> NL) (line @ NL # rest) = line"
    using assms(1) by (auto simp: takeWhile_tail)
  have d: "dropWhile (\<lambda>c. c \<noteq> NL) (line @ NL # rest) = NL # rest"
    using assms(1) by (auto simp: dropWhile_append3)
  show ?thesis
    using assms(2) by (simp add: scanStep_def t d Let_def)
qed

lemma scanLines_line:
  assumes "NL \<notin> set line" and "length line < maxScanTokenSize"
  shows "scanLines (line @ NL # rest) = (dropCR line # fst (scanLines rest), snd (scanLines rest))"
  by (subst scanLines.simps) (simp add: scanStep_line [OF assms])

text \<open>Appending to a whole text leaves the lines already there as they were.\<close>

lemma scanLines_append:
  "snd (scanLines l) = False \<Longrightarrow> l = [] \<or> last l = NL \<Longrightarrow>
   scanLines (l @ x) = (fst (scanLines l) @ fst (scanLines x), snd (scanLines x))"
proof (induction l rule: length_induct)
  case (1 l)
  show ?case
  proof (cases l)
    case Nil
    then show ?thesis by (simp add: scanLines_Nil)
  next
    case (Cons a as)
    with 1(3) have lastl: "last l = NL" and ne: "l \<noteq> []" by auto
    then have inl: "NL \<in> set l" using last_in_set by metis
    define line where "line = takeWhile (\<lambda>c. c \<noteq> NL) l"
    define rest where "rest = tl (dropWhile (\<lambda>c. c \<noteq> NL) l)"
    have dne: "dropWhile (\<lambda>c. c \<noteq> NL) l \<noteq> []"
      using inl by auto
    have hdd: "hd (dropWhile (\<lambda>c. c \<noteq> NL) l) = NL"
      using hd_dropWhile [OF dne] by simp
    have split: "l = line @ NL # rest"
      unfolding line_def rest_def
      using dne hdd takeWhile_dropWhile_id [of "\<lambda>c. c \<noteq> NL" l]
      by (metis list.collapse)
    have nlline: "NL \<notin> set line"
      unfolding line_def using set_takeWhileD by fastforce
    have short: "length line < maxScanTokenSize"
    proof (rule ccontr)
      assume "\<not> length line < maxScanTokenSize"
      then have "scanStep l = TooLong"
        using ne by (simp add: scanStep_def line_def Let_def)
      then have "snd (scanLines l) = True"
        by (subst scanLines.simps) simp
      with 1(2) show False by simp
    qed
    have sl: "scanLines l = (dropCR line # fst (scanLines rest), snd (scanLines rest))"
      using scanLines_line [OF nlline short, of rest] split by simp
    have restok: "snd (scanLines rest) = False" using 1(2) sl by simp
    have restend: "rest = [] \<or> last rest = NL"
      using lastl split by (cases rest) auto
    have len: "length rest < length l"
      by (subst split) simp
    have IH: "scanLines (rest @ x) = (fst (scanLines rest) @ fst (scanLines x), snd (scanLines x))"
      using 1(1) len restok restend by blast
    have "scanLines (l @ x) = scanLines (line @ NL # (rest @ x))"
      by (subst split) simp
    also have "\<dots> = (dropCR line # fst (scanLines (rest @ x)), snd (scanLines (rest @ x)))"
      by (rule scanLines_line [OF nlline short])
    finally show ?thesis using IH sl by simp
  qed
qed

lemma splitN_line:
  assumes "CHR '' '' \<notin> set h" and "CHR '' '' \<notin> set u"
  shows "splitN (h @ '' '' @ u @ '' '' @ m) 3 = [h, u, m]"
proof -
  have a: "takeWhile (\<lambda>c. c \<noteq> CHR '' '') (h @ CHR '' '' # r) = h" for r
    using assms(1) by (auto simp: takeWhile_tail)
  have b: "dropWhile (\<lambda>c. c \<noteq> CHR '' '') (h @ CHR '' '' # r) = CHR '' '' # r" for r
    using assms(1) by (auto simp: dropWhile_append3)
  have c: "takeWhile (\<lambda>c. c \<noteq> CHR '' '') (u @ CHR '' '' # r) = u" for r
    using assms(2) by (auto simp: takeWhile_tail)
  have d: "dropWhile (\<lambda>c. c \<noteq> CHR '' '') (u @ CHR '' '' # r) = CHR '' '' # r" for r
    using assms(2) by (auto simp: dropWhile_append3)
  show ?thesis
    by (simp add: numeral_3_eq_3 a b c d)
qed

lemma getCommits_loop_append:
  "getCommits_loop (xs @ ys) acc =
     (case getCommits_loop xs acc of Inl e \<Rightarrow> Inl e | Inr cs \<Rightarrow> getCommits_loop ys cs)"
  by (induction xs arbitrary: acc) (auto simp: Let_def)

lemma getCommits_loop_line:
  assumes "CHR '' '' \<notin> set (Hash c)" and "CHR '' '' \<notin> set (Username c)"
  shows "getCommits_loop [Hash c @ '' '' @ Username c @ '' '' @ Message c] commits =
           Inr (commits @ [c])"
  using splitN_line [OF assms, of "Message c"] by (simp add: Let_def)


lemma dropCR_line:
  assumes "Message c = [] \<or> last (Message c) \<noteq> CR"
  shows "dropCR (Hash c @ '' '' @ Username c @ '' '' @ Message c) =
           Hash c @ '' '' @ Username c @ '' '' @ Message c"
  using assms by (auto simp: dropCR_def)

lemma findCommit_loop_None:
  "hash \<notin> Hash ` set commits \<Longrightarrow> findCommit_loop commits hash = None"
  by (induction commits) auto

section \<open>Facts about the display of the log\<close>





lemma getCommits_loop_part0_as:
  "getCommits_loop_part0 lines (map as_part0 acc) =
     (case getCommits_loop lines acc of Inl e \<Rightarrow> Inl e | Inr cs \<Rightarrow> Inr (map as_part0 cs))"
proof (induction lines arbitrary: acc)
  case Nil
  show ?case by simp
next
  case (Cons line lines)
  show ?case
    using Cons.IH [of "acc @ [\<lparr>Hash = splitN line 3 ! 0, Username = splitN line 3 ! 1,
                                Message = splitN line 3 ! 2\<rparr>]"]
    by (simp add: Let_def as_part0_def)
qed

lemma getCommits_part0_as:
  "getCommits_part0 s =
     (case getCommits s of Inl e \<Rightarrow> Inl e | Inr cs \<Rightarrow> Inr (rev (map as_part0 cs)))"
  using getCommits_loop_part0_as [of _ "[]"]
  by (auto simp: getCommits_part0_def getCommits_def split: option.splits sum.splits)



lemma getCommits_loop_part0_Files:
  "getCommits_loop_part0 lines acc = Inr cs \<Longrightarrow> \<forall>c\<in>set acc. Files c = [] \<Longrightarrow>
   \<forall>c\<in>set cs. Files c = []"
proof (induction lines arbitrary: acc)
  case Nil
  then show ?case by simp
next
  case (Cons line lines)
  define c where "c = \<lparr>Hash_part0 = splitN line 3 ! 0, Author = \<lparr>Name = splitN line 3 ! 1\<rparr>,
                       Message_part0 = splitN line 3 ! 2, Files = []\<rparr>"
  have "getCommits_loop_part0 lines (acc @ [c]) = Inr cs"
    using Cons.prems(1) by (simp add: Let_def c_def split: if_splits)
  moreover have "\<forall>x\<in>set (acc @ [c]). Files x = []"
    using Cons.prems(2) by (simp add: c_def)
  ultimately show ?case by (rule Cons.IH)
qed

section \<open>Facts about the commit store\<close>

lemma mkdirAll_commit_keeps:
  "tree (mkdirAll_commit hash s) = tree s"
  "readVcs configFile (mkdirAll_commit hash s) = readVcs configFile s"
  "readVcs indexFile (mkdirAll_commit hash s) = readVcs indexFile s"
  "readVcs logFile (mkdirAll_commit hash s) = readVcs logFile s"
  "vcsDir (mkdirAll_commit hash s) \<noteq> None"
  "hasChanges (mkdirAll_commit hash s) hash = False"
  "hasChanges s h = False \<Longrightarrow> hasChanges (mkdirAll_commit hash s) h = False"
  by (auto simp: mkdirAll_commit_def mkdirAll_vcsDir_def readVcs_def emptyDir_def hasChanges_def
        Let_def split: option.splits)

lemma copyFile_keeps:
  "tree (snd (copyFile hash filename src s)) = tree s"
  "readVcs configFile (snd (copyFile hash filename src s)) = readVcs configFile s"
  "readVcs indexFile (snd (copyFile hash filename src s)) = readVcs indexFile s"
  "readVcs logFile (snd (copyFile hash filename src s)) = readVcs logFile s"
  "vcsDir (snd (copyFile hash filename src s)) \<noteq> None"
  "hasChanges (snd (copyFile hash filename src s)) hash = False"
  "hasChanges s h = False \<Longrightarrow> hasChanges (snd (copyFile hash filename src s)) h = False"
  using mkdirAll_commit_keeps(1-6) [of hash s] mkdirAll_commit_keeps(7) [of s h hash]
  by (auto simp: copyFile_def readVcs_def hasChanges_def Let_def
        split: option.splits node.splits if_splits)

lemma copyFile_regular:
  "tree s src = Some (File bytes) \<Longrightarrow> fst (copyFile hash filename src s) = None"
  using mkdirAll_commit_keeps(1,5) [of hash s]
  by (auto simp: copyFile_def Let_def split: option.splits node.splits)

lemma commitFiles_keeps:
  "tree (snd (commitFiles hash files s)) = tree s \<and>
   readVcs configFile (snd (commitFiles hash files s)) = readVcs configFile s \<and>
   readVcs indexFile (snd (commitFiles hash files s)) = readVcs indexFile s \<and>
   readVcs logFile (snd (commitFiles hash files s)) = readVcs logFile s"
proof (induction files arbitrary: s)
  case Nil
  show ?case by simp
next
  case (Cons f files)
  obtain e s1 where c: "copyFile hash f f s = (e, s1)" by force
  have k: "tree s1 = tree s" "readVcs configFile s1 = readVcs configFile s"
    "readVcs indexFile s1 = readVcs indexFile s" "readVcs logFile s1 = readVcs logFile s"
    using copyFile_keeps(1-4) [of hash f f s] c by simp_all
  show ?case
  proof (cases e)
    case None
    with c k Cons.IH [of s1] show ?thesis by simp
  next
    case (Some a)
    with c k show ?thesis by simp
  qed
qed

lemma commitFiles_stored:
  "hasChanges s hash = False \<or> files \<noteq> [] \<Longrightarrow>
   hasChanges (snd (commitFiles hash files s)) hash = False"
proof (induction files arbitrary: s)
  case Nil
  then show ?case by simp
next
  case (Cons f files)
  obtain e s1 where c: "copyFile hash f f s = (e, s1)" by force
  have h: "hasChanges s1 hash = False" using copyFile_keeps(6) [of hash f f s] c by simp
  show ?case
  proof (cases e)
    case None
    with c h Cons.IH [of s1] show ?thesis by simp
  next
    case (Some a)
    with c h show ?thesis by simp
  qed
qed

lemma commitFiles_vcsDir:
  "vcsDir s \<noteq> None \<or> files \<noteq> [] \<Longrightarrow> vcsDir (snd (commitFiles hash files s)) \<noteq> None"
proof (induction files arbitrary: s)
  case Nil
  then show ?case by simp
next
  case (Cons f files)
  obtain e s1 where c: "copyFile hash f f s = (e, s1)" by force
  have h: "vcsDir s1 \<noteq> None" using copyFile_keeps(5) [of hash f f s] c by simp
  show ?case
  proof (cases e)
    case None
    with c h Cons.IH [of s1] show ?thesis by simp
  next
    case (Some a)
    with c h show ?thesis by simp
  qed
qed

lemma computeHash_loop_tree:
  "tree s' = tree s \<Longrightarrow> computeHash_loop s' files written = computeHash_loop s files written"
  by (induction files arbitrary: written) (auto split: option.splits node.splits)

text \<open>Files that could be hashed can be copied.\<close>

lemma commitFiles_regular:
  "computeHash_loop s files written = Inr result \<Longrightarrow> fst (commitFiles hash files s) = None"
proof (induction files arbitrary: s written)
  case Nil
  show ?case by simp
next
  case (Cons f files)
  from Cons.prems obtain bytes where b: "tree s f = Some (File bytes)"
    and r: "computeHash_loop s files (written @ bytes) = Inr result"
    by (auto split: option.splits node.splits)
  obtain e s1 where c: "copyFile hash f f s = (e, s1)" by force
  have e: "e = None" using copyFile_regular [OF b, of hash f] c by simp
  have t: "tree s1 = tree s" using copyFile_keeps(1) [of hash f f s] c by simp
  have "computeHash_loop s1 files (written @ bytes) = Inr result"
    using r computeHash_loop_tree [OF t] by simp
  from Cons.IH [OF this] c e show ?case by simp
qed

lemma addLog_keeps:
  "tree (snd (addLog c s)) = tree s"
  "readVcs configFile (snd (addLog c s)) = readVcs configFile s"
  "readVcs indexFile (snd (addLog c s)) = readVcs indexFile s"
  "hasChanges (snd (addLog c s)) h = hasChanges s h"
  "vcsDir s \<noteq> None \<Longrightarrow> fst (addLog c s) = None"
  by (auto simp: addLog_def readVcs_def hasChanges_def split: option.splits)

lemma addLog_part0_keeps:
  "tree (snd (addLog_part0 c s)) = tree s"
  "readVcs configFile (snd (addLog_part0 c s)) = readVcs configFile s"
  "readVcs indexFile (snd (addLog_part0 c s)) = readVcs indexFile s"
  "vcsDir s \<noteq> None \<Longrightarrow> fst (addLog_part0 c s) = None"
  "vcsDir s \<noteq> None \<Longrightarrow> vcsDir (snd (addLog_part0 c s)) \<noteq> None"
  by (auto simp: addLog_part0_def readVcs_def split: option.splits)

lemma clearStage_index:
  "fst (clearStage s) = None"
  "readVcs indexFile (snd (clearStage s)) =
     (case readVcs indexFile s of None \<Rightarrow> None | Some data \<Rightarrow> Some [])"
  "readVcs configFile (snd (clearStage s)) = readVcs configFile s"
  "tree (snd (clearStage s)) = tree s"
  by (auto simp: clearStage_def readVcs_def split: option.splits)

lemma getUsername_vcsDir: "getUsername s = Some u \<Longrightarrow> vcsDir s \<noteq> None"
  by (auto simp: getUsername_def readVcs_def split: option.splits)

lemma getTrackedFiles_index: "getTrackedFiles s \<noteq> [] \<Longrightarrow> readVcs indexFile s \<noteq> None"
  by (auto simp: getTrackedFiles_def split: option.splits)

section \<open>Facts about commit\<close>

lemma Save_clears:
  assumes "vcsDir s \<noteq> None" and "readVcs indexFile s \<noteq> None"
    and "computeHash_loop s (Files c) [] = Inr written"
  shows "fst (Save sha256Hex c s) = Inr (c\<lparr>Hash_part0 := sha256Hex written\<rparr>) \<and>
         readVcs indexFile (snd (Save sha256Hex c s)) = Some []"
proof -
  define c1 where "c1 = c\<lparr>Hash_part0 := sha256Hex written\<rparr>"
  have h: "computeHash_part0 sha256Hex s c = Inr c1"
    by (simp add: computeHash_part0_def assms(3) c1_def)
  obtain e1 s1 where cf: "commitFiles_part0 c1 s = (e1, s1)" by force
  have cf': "commitFiles (sha256Hex written) (Files c) s = (e1, s1)"
    using cf by (simp add: commitFiles_part0_def c1_def)
  have e1: "e1 = None"
    using commitFiles_regular [OF assms(3), of "sha256Hex written"] cf' by simp
  have v1: "vcsDir s1 \<noteq> None"
    using commitFiles_vcsDir [of s "Files c" "sha256Hex written"] assms(1) cf' by simp
  have i1: "readVcs indexFile s1 = readVcs indexFile s"
    using commitFiles_keeps [of "sha256Hex written" "Files c" s] cf' by simp
  obtain e2 s2 where al: "addLog_part0 c1 s1 = (e2, s2)" by force
  have e2: "e2 = None" using addLog_part0_keeps(4) [OF v1, of c1] al by simp
  have i2: "readVcs indexFile s2 = readVcs indexFile s"
    using addLog_part0_keeps(3) [of c1 s1] al i1 by simp
  obtain e3 s3 where cs: "clearStage s2 = (e3, s3)" by force
  have e3: "e3 = None" using clearStage_index(1) [of s2] cs by simp
  have i3: "readVcs indexFile s3 = Some []"
    using clearStage_index(2) [of s2] cs i2 assms(2) by (auto split: option.splits)
  have "Save sha256Hex c s = (Inr c1, s3)"
    by (simp add: Save_def h cf e1 al e2 cs e3)
  then show ?thesis by (simp add: i3 c1_def)
qed

text \<open>The commit of \<^verbatim>\<open>src/unnamed/part_000\<close> with something staged, a user name and
  staged files that can be read: it reports the commit and leaves an empty index.\<close>

lemma doCommit_part0_run:
  assumes "getUsername s = Some username"
    and "getTrackedFiles s \<noteq> []"
    and "computeHash_loop s (getTrackedFiles s) [] = Inr written"
  shows "fst (doCommit_part0 sha256Hex s [message]) = None \<and>
         fst (snd (doCommit_part0 sha256Hex s [message])) = println ''Changes are commited.'' \<and>
         readVcs indexFile (snd (snd (doCommit_part0 sha256Hex s [message]))) = Some [] \<and>
         getTrackedFiles (snd (snd (doCommit_part0 sha256Hex s [message]))) = []"
proof -
  define c where "c = \<lparr>Hash_part0 = [], Author = \<lparr>Name = username\<rparr>, Message_part0 = message,
                      Files = getTrackedFiles s\<rparr>"
  have v: "vcsDir s \<noteq> None" using getUsername_vcsDir [OF assms(1)] .
  have i: "readVcs indexFile s \<noteq> None" using getTrackedFiles_index [OF assms(2)] .
  have f: "computeHash_loop s (Files c) [] = Inr written" using assms(3) by (simp add: c_def)
  obtain r s3 where sv: "Save sha256Hex c s = (r, s3)" by force
  have r: "r = Inr (c\<lparr>Hash_part0 := sha256Hex written\<rparr>)" and i3: "readVcs indexFile s3 = Some []"
    using Save_clears [OF v i f, of sha256Hex] sv by simp_all
  have run: "doCommit_part0 sha256Hex s [message] = (None, println ''Changes are commited.'', s3)"
    using assms(1,2) sv r by (simp add: doCommit_part0_def c_def Let_def)
  have "getTrackedFiles s3 = []"
    by (simp add: getTrackedFiles_def i3 scanLines_Nil)
  with run i3 show ?thesis by simp
qed





section \<open>The example files\<close>

lemmas eval_defs = doAdd_def doCommit_def saveCommit_def getUsername_def getTrackedFiles_def
  readVcs_def computeHash_def hasChanges_def copyFile_def mkdirAll_commit_def mkdirAll_vcsDir_def
  addLog_def emptyDir_def contents_def scanLines.simps scanStep_def dropCR_def
  maxScanTokenSize_def println_def Let_def exampleHex_def

lemma getCommits_two:
  "getCommits fs_two_commits =
     Inr [\<lparr>Hash = ''hhello'', Username = ''alice'', Message = ''first''\<rparr>,
          \<lparr>Hash = ''hbye'', Username = ''alice'', Message = ''second try''\<rparr>]"
  by (simp add: fs_two_commits_def getCommits_def numeral_3_eq_3 eval_defs)

lemma scenario_add:
  "doAdd fs0 [''a.txt''] =
     (None, ''The file '' @ [SQ] @ ''a.txt'' @ [SQ] @ '' is tracked.'' @ [NL], fs_staged)"
  by (simp add: fs0_def fs_staged_def eval_defs)

lemma scenario_commit:
  "doCommit exampleHex fs_staged [''first''] =
     (None, println ''Changes are committed.'', fs_committed)"
  by (simp add: fs_staged_def fs_committed_def eval_defs)

text \<open>Configuring the empty string as the user name leaves an empty configuration
  file.\<close>

lemma scenario_config_empty:
  "doConfig fs_unconfigured [[]] = (None, ''The username is .'' @ [NL], fs_anonymous)"
  by (simp add: fs_unconfigured_def fs_anonymous_def doConfig_def setUsername_def eval_defs)

section \<open>The claims\<close>

subsection \<open>C1: checkout writes the committed bytes back\<close>

text \<open>
  C1 says that checkout of a logged commit overwrites each of its files in the working
  tree with the bytes stored at commit time. \<^verbatim>\<open>restoreCommit\<close> of \<^verbatim>\<open>src/main.go\<close> only
  prints the commit. In \<open>fs_modified\<close> the file \<^verbatim>\<open>a.txt\<close> was committed as "hello"
  (\<open>scenario_add\<close>, \<open>scenario_commit\<close>) and then changed to "bye": checkout of that commit
  prints it and leaves every file as it was, \<^verbatim>\<open>a.txt\<close> still "bye", although the store
  holds "hello" for it. The checkout of \<^verbatim>\<open>src/unnamed/part_000\<close> prints the help line of
  the command and does nothing else.
\<close>

theorem checkout_restores_nothing:
  "doCheckout fs_modified [''hhello''] =
     (None, show_Commit \<lparr>Hash = ''hhello'', Username = ''alice'', Message = ''first''\<rparr>, fs_modified) \<and>
   tree fs_modified ''a.txt'' = Some (File ''bye'') \<and>
   (case vcsDir fs_modified of
      Some d \<Rightarrow> (case commitsDir d ''hhello'' of Some files \<Rightarrow> files ''a.txt'')) = Some ''hello'' \<and>
   doCheckout_part0 fs_modified [''hhello''] = (None, println ''Restore a file.'', fs_modified)"
  by (simp add: fs_modified_def fs_committed_def doCheckout_def findCommit_def getCommits_def
        restoreCommit_def doCheckout_part0_def numeral_3_eq_3 eval_defs)

subsection \<open>C2: commit with nothing staged\<close>

text \<open>
  C2 says that commit with an empty staged set reports "nothing to commit" and appends
  nothing to the log. In \<open>fs0\<close> nothing is staged (there is no index file), and the commit
  of \<^verbatim>\<open>src/main.go\<close> reports "Changes are committed." and appends a log line whose hash is
  the digest of no bytes: \<^verbatim>\<open>saveCommit\<close> has no check for an empty list of files, and
  \<^verbatim>\<open>commitFiles\<close> creates no directory for it, so \<^verbatim>\<open>hasChanges\<close> stays true.
\<close>

theorem commit_empty_stage_is_logged:
  "getTrackedFiles fs0 = [] \<and>
   doCommit sha256Hex fs0 [''first''] =
     (None, println ''Changes are committed.'',
      fs0\<lparr>vcsDir := Some (emptyDir\<lparr>configFile := Some ''alice'',
        logFile := Some (sha256Hex [] @ '' alice first'' @ [NL])\<rparr>)\<rparr>)"
  by (simp add: fs0_def eval_defs)

subsection \<open>C3: a successful commit empties the index\<close>




subsection \<open>C4: committing twice\<close>

text \<open>
  C4 says that two commits of the same staged content append at most one log entry, the
  second reporting "nothing to commit". With nothing staged (\<open>fs0\<close>) the commit of
  \<^verbatim>\<open>src/main.go\<close> appends a log line each time and reports "Changes are committed." both
  times. It is the defect of C2.
\<close>

theorem commit_empty_stage_twice:
  "readVcs logFile
     (snd (snd (doCommit sha256Hex (snd (snd (doCommit sha256Hex fs0 [''first'']))) [''second''])))
     = Some (sha256Hex [] @ '' alice first'' @ [NL] @ sha256Hex [] @ '' alice second'' @ [NL]) \<and>
   fst (snd (doCommit sha256Hex (snd (snd (doCommit sha256Hex fs0 [''first'']))) [''second'']))
     = println ''Changes are committed.''"
  by (simp add: fs0_def eval_defs)

subsection \<open>C5: the log lists the newest commit first\<close>



subsection \<open>C6: checkout of an unknown hash\<close>

text \<open>
  C6. When the log holds the commits \<open>commits\<close> and \<open>hash\<close> is the hash of none of them,
  checkout of \<open>hash\<close> returns (no exit, no panic), prints "Commit does not exist." and
  leaves every file as it was: working tree, log and index.
\<close>

theorem checkout_unknown_hash:
  assumes "getCommits s = Inr commits" and "hash \<notin> Hash ` set commits"
  shows "doCheckout s [hash] = (None, println ''Commit does not exist.'', s)"
  using assms by (simp add: doCheckout_def findCommit_def findCommit_loop_None)

theorem checkout_unknown_hash_witness:
  "doCheckout fs_two_commits [''hhi''] = (None, println ''Commit does not exist.'', fs_two_commits)"
  using checkout_unknown_hash [OF getCommits_two, of "''hhi''"] by simp

subsection \<open>C7: add of a path that does not exist\<close>



subsection \<open>C8: commit without an author\<close>

text \<open>
  C8, amended. When no user name can be read (there is no configuration file), commit
  with a message changes no file and returns: \<^verbatim>\<open>src/main.go\<close> prints "Please, tell me
  who are you."; \<^verbatim>\<open>src/unnamed/part_000\<close> prints the same when something is staged and
  "Nothing to commit." when nothing is.
\<close>

theorem commit_without_identity:
  assumes "getUsername s = None"
  shows "doCommit sha256Hex s [message] = (None, println ''Please, tell me who are you.'', s) \<and>
         doCommit_part0 sha256Hex s [message] =
           (None, println (if getTrackedFiles s = [] then ''Nothing to commit.''
                           else ''Please, tell me who are you.''), s)"
  using assms by (simp add: doCommit_def doCommit_part0_def Let_def)

theorem commit_without_identity_witness:
  "getUsername fs_unconfigured = None \<and>
   doCommit exampleHex fs_unconfigured [''first''] =
     (None, println ''Please, tell me who are you.'', fs_unconfigured) \<and>
   doCommit_part0 exampleHex fs_unconfigured [''first''] =
     (None, println ''Please, tell me who are you.'', fs_unconfigured)"
proof -
  have u: "getUsername fs_unconfigured = None"
    by (simp add: fs_unconfigured_def getUsername_def readVcs_def emptyDir_def)
  have t: "getTrackedFiles fs_unconfigured = [''a.txt'']"
    by (simp add: fs_unconfigured_def eval_defs)
  show ?thesis
    using commit_without_identity [OF u, of exampleHex "''first''"] u t by simp
qed

text \<open>C8 as stated fails for an empty user name: in \<open>fs_anonymous\<close> the configuration
  file is empty (\<open>scenario_config_empty\<close>), \<^verbatim>\<open>getUsername\<close> returns the empty string with
  no error, and both programs commit, with the empty string as the author of the log
  line.\<close>

theorem commit_empty_identity_counterexample:
  "getUsername fs_anonymous = Some [] \<and>
   fst (doCommit exampleHex fs_anonymous [''first'']) = None \<and>
   fst (snd (doCommit exampleHex fs_anonymous [''first''])) = println ''Changes are committed.'' \<and>
   readVcs logFile (snd (snd (doCommit exampleHex fs_anonymous [''first''])))
     = Some (''hhello  first'' @ [NL]) \<and>
   fst (snd (doCommit_part0 exampleHex fs_anonymous [''first''])) = println ''Changes are commited.'' \<and>
   readVcs logFile (snd (snd (doCommit_part0 exampleHex fs_anonymous [''first''])))
     = Some (''hhello  first'' @ [NL])"
  by (simp add: fs_anonymous_def doCommit_part0_def Save_def computeHash_part0_def
        commitFiles_part0_def addLog_part0_def clearStage_def eval_defs)

subsection \<open>C9: a logged commit is read back\<close>

text \<open>
  C9, amended. Let the hash and the author hold no space and no newline, the message no
  newline and no carriage return at its end, and the line be shorter than 65536 bytes;
  let the log so far be whole and hold the commits \<open>commits\<close>. Then \<^verbatim>\<open>addLog\<close> succeeds
  and the log read back holds \<open>commits\<close> followed by the new commit, its hash, author and
  message as they were given (the message with its inner spaces).
\<close>

theorem log_append_read_back:
  assumes "vcsDir s \<noteq> None"
    and "getCommits s = Inr commits"
    and "log_complete s"
    and "plain_fields c"
    and "scanner_keeps c"
  shows "fst (addLog c s) = None \<and> getCommits (snd (addLog c s)) = Inr (commits @ [c])"
proof -
  obtain d where d: "vcsDir s = Some d" using assms(1) by auto
  define old where "old = contents (logFile d)"
  define line where "line = Hash c @ '' '' @ Username c @ '' '' @ Message c"
  have oldr: "contents (readVcs logFile s) = old"
    by (simp add: readVcs_def d old_def)
  have ok: "snd (scanLines old) = False" and ended: "old = [] \<or> last old = NL"
    using assms(3) by (simp_all add: log_complete_def oldr Let_def)
  have nl: "NL \<notin> set line"
    using assms(4) by (simp add: plain_fields_def line_def)
  have short: "length line < maxScanTokenSize"
    using assms(5) by (simp add: scanner_keeps_def line_def)
  have keep: "dropCR line = line"
    unfolding line_def using assms(5) by (intro dropCR_line) (simp add: scanner_keeps_def)
  have one: "scanLines (line @ [NL]) = ([line], False)"
    using scanLines_line [OF nl short, of "[]"] by (simp add: keep scanLines_Nil)
  have new: "fst (scanLines (old @ line @ [NL])) = fst (scanLines old) @ [line]"
    using scanLines_append [OF ok ended, of "line @ [NL]"] one by simp
  have before: "getCommits_loop (fst (scanLines old)) [] = Inr commits"
    using assms(2)
    by (auto simp: getCommits_def readVcs_def d old_def contents_def scanLines_Nil
          split: option.splits)
  have parsed: "getCommits_loop [line] commits = Inr (commits @ [c])"
    unfolding line_def using assms(4) by (intro getCommits_loop_line) (simp_all add: plain_fields_def)
  have after: "getCommits_loop (fst (scanLines (old @ line @ [NL]))) [] = Inr (commits @ [c])"
    by (simp only: new getCommits_loop_append before parsed sum.case)
  have "readVcs logFile (snd (addLog c s)) = Some (old @ line @ [NL])"
    by (simp add: addLog_def d readVcs_def old_def line_def)
  then have "getCommits (snd (addLog c s)) = Inr (commits @ [c])"
    by (simp add: getCommits_def after)
  moreover have "fst (addLog c s) = None"
    by (simp add: addLog_def d)
  ultimately show ?thesis by simp
qed

text \<open>The theorem at \<open>fs_committed\<close>, whose log holds one commit: a second one, with
  spaces in its message, is appended and read back after the first.\<close>

theorem log_append_read_back_witness:
  "plain_fields \<lparr>Hash = ''hbye'', Username = ''alice'', Message = ''second try''\<rparr> \<and>
   scanner_keeps \<lparr>Hash = ''hbye'', Username = ''alice'', Message = ''second try''\<rparr> \<and>
   log_complete fs_committed \<and>
   getCommits
     (snd (addLog \<lparr>Hash = ''hbye'', Username = ''alice'', Message = ''second try''\<rparr> fs_committed))
     = Inr [\<lparr>Hash = ''hhello'', Username = ''alice'', Message = ''first''\<rparr>,
            \<lparr>Hash = ''hbye'', Username = ''alice'', Message = ''second try''\<rparr>]"
proof -
  have v: "vcsDir fs_committed \<noteq> None" by (simp add: fs_committed_def)
  have g: "getCommits fs_committed =
             Inr [\<lparr>Hash = ''hhello'', Username = ''alice'', Message = ''first''\<rparr>]"
    by (simp add: fs_committed_def getCommits_def numeral_3_eq_3 eval_defs)
  have l: "log_complete fs_committed"
    by (simp add: fs_committed_def log_complete_def eval_defs)
  have p: "plain_fields \<lparr>Hash = ''hbye'', Username = ''alice'', Message = ''second try''\<rparr>"
    by (simp add: plain_fields_def)
  have k: "scanner_keeps \<lparr>Hash = ''hbye'', Username = ''alice'', Message = ''second try''\<rparr>"
    by (simp add: scanner_keeps_def maxScanTokenSize_def)
  show ?thesis
    using log_append_read_back [OF v g l p k] l p k by simp
qed

text \<open>C9 as stated fails for a message that ends in a carriage return: the scanner drops
  it, and the message read back is one byte shorter.\<close>

theorem message_ending_in_CR_counterexample:
  "plain_fields \<lparr>Hash = ''0a1b'', Username = ''alice'', Message = ''fix'' @ [CR]\<rparr> \<and>
   getCommits (snd (addLog \<lparr>Hash = ''0a1b'', Username = ''alice'', Message = ''fix'' @ [CR]\<rparr> fs0))
     = Inr [\<lparr>Hash = ''0a1b'', Username = ''alice'', Message = ''fix''\<rparr>] \<and>
   ''fix'' \<noteq> ''fix'' @ [CR]"
  by (simp add: plain_fields_def fs0_def getCommits_def numeral_3_eq_3 eval_defs)

subsection \<open>C10: a commit read from the log has no files\<close>

text \<open>
  C10. Every commit that \<^verbatim>\<open>getCommits\<close> of \<^verbatim>\<open>src/unnamed/part_000\<close> builds from the log
  has an empty \<^verbatim>\<open>Files\<close>, and the line \<^verbatim>\<open>addLog\<close> writes for a commit does not depend on
  its \<^verbatim>\<open>Files\<close>: the log keeps hash, author and message only. (The \<^verbatim>\<open>Commit\<close> of
  \<^verbatim>\<open>src/main.go\<close> has no such field at all.)
\<close>

theorem log_entries_carry_no_files:
  assumes "getCommits_part0 s = Inr commits"
  shows "(\<forall>c\<in>set commits. Files c = []) \<and>
         addLog_part0 (c\<lparr>Files := files\<rparr>) s = addLog_part0 c s"
proof -
  have "\<forall>c\<in>set commits. Files c = []"
    using assms getCommits_loop_part0_Files [of _ "[]"]
    by (auto simp: getCommits_part0_def split: option.splits sum.splits)
  then show ?thesis by (simp add: addLog_part0_def split: option.split)
qed

text \<open>The theorem at \<open>fs_two_commits\<close>: \<^verbatim>\<open>a.txt\<close> is among the files of both commits, and
  neither entry read from the log names it.\<close>

theorem log_entries_carry_no_files_witness:
  "getCommits_part0 fs_two_commits =
     Inr [\<lparr>Hash_part0 = ''hbye'', Author = \<lparr>Name = ''alice''\<rparr>, Message_part0 = ''second try'', Files = []\<rparr>,
          \<lparr>Hash_part0 = ''hhello'', Author = \<lparr>Name = ''alice''\<rparr>, Message_part0 = ''first'', Files = []\<rparr>] \<and>
   getTrackedFiles fs_two_commits = [''a.txt'']"
proof -
  have g: "getCommits_part0 fs_two_commits =
     Inr [\<lparr>Hash_part0 = ''hbye'', Author = \<lparr>Name = ''alice''\<rparr>, Message_part0 = ''second try'', Files = []\<rparr>,
          \<lparr>Hash_part0 = ''hhello'', Author = \<lparr>Name = ''alice''\<rparr>, Message_part0 = ''first'', Files = []\<rparr>]"
    by (simp add: getCommits_part0_as getCommits_two as_part0_def)
  have t: "getTrackedFiles fs_two_commits = [''a.txt'']"
    by (simp add: fs_two_commits_def eval_defs)
  show ?thesis using log_entries_carry_no_files [OF g] g t by simp
qed

section \<open>Further properties of commit and checkout\<close>

lemma computeHash_loop_concat:
  "computeHash_loop s files written = Inr result \<Longrightarrow>
   result = written @ concat (map (\<lambda>f. case tree s f of Some (File bytes) \<Rightarrow> bytes | _ \<Rightarrow> []) files)"
proof (induction files arbitrary: written)
  case Nil
  then show ?case by simp
next
  case (Cons f files)
  from Cons.prems obtain bytes where b: "tree s f = Some (File bytes)"
    and r: "computeHash_loop s files (written @ bytes) = Inr result"
    by (auto split: option.splits node.splits)
  from Cons.IH [OF r] b show ?case by simp
qed

lemma saveCommit_run:
  assumes "vcsDir s \<noteq> None"
    and "computeHash_loop s (getTrackedFiles s) [] = Inr written"
  shows "saveCommit sha256Hex s u m =
           (if hasChanges s (sha256Hex written)
            then (Inr True,
                  snd (addLog \<lparr>Hash = sha256Hex written, Username = u, Message = m\<rparr>
                        (snd (commitFiles (sha256Hex written) (getTrackedFiles s) s))))
            else (Inr False, s))"
proof -
  define hash where "hash = sha256Hex written"
  define c where "c = \<lparr>Hash = hash, Username = u, Message = m\<rparr>"
  have h: "computeHash sha256Hex s (getTrackedFiles s) = Inr hash"
    by (simp add: computeHash_def assms(2) hash_def)
  obtain e1 s1 where cf: "commitFiles hash (getTrackedFiles s) s = (e1, s1)" by force
  have e1: "e1 = None"
    using commitFiles_regular [OF assms(2), of hash] cf by simp
  have v1: "vcsDir s1 \<noteq> None"
    using commitFiles_vcsDir [of s "getTrackedFiles s" hash] assms(1) cf by simp
  obtain e2 s2 where al: "addLog c s1 = (e2, s2)" by force
  have e2: "e2 = None" using addLog_keeps(5) [OF v1, of c] al by simp
  show ?thesis
    using h cf e1 al e2 by (simp add: saveCommit_def Let_def hash_def [symmetric] c_def [symmetric])
qed

lemma addLog_appends:
  "vcsDir s \<noteq> None \<Longrightarrow>
   readVcs logFile (snd (addLog c s)) =
     Some (contents (readVcs logFile s) @ Hash c @ '' '' @ Username c @ '' '' @ Message c @ [NL])"
  by (auto simp: addLog_def readVcs_def)

lemma doCommit_part0_empty:
  "getTrackedFiles s = [] \<Longrightarrow>
   doCommit_part0 sha256Hex s [message] = (None, println ''Nothing to commit.'', s)"
  by (simp add: doCommit_part0_def Let_def)

lemma fs_staged_facts:
  "getUsername fs_staged = Some ''alice''"
  "getTrackedFiles fs_staged = [''a.txt'']"
  "computeHash_loop fs_staged (getTrackedFiles fs_staged) [] = Inr ''hello''"
  by (simp_all add: fs_staged_def eval_defs)

subsection \<open>Commit with nothing staged, in the version that checks for it\<close>

text \<open>
  The commit of \<^verbatim>\<open>src/unnamed/part_000\<close> with an empty staged set prints "Nothing to
  commit." and changes no file, whether or not a user name is configured.
\<close>

theorem commit_empty_stage_part0:
  assumes "getTrackedFiles s = []"
  shows "doCommit_part0 sha256Hex s [message] = (None, println ''Nothing to commit.'', s)"
  using assms by (rule doCommit_part0_empty)

theorem commit_empty_stage_part0_witness:
  "getTrackedFiles fs0 = [] \<and>
   doCommit_part0 exampleHex fs0 [''first''] = (None, println ''Nothing to commit.'', fs0)"
proof -
  have t: "getTrackedFiles fs0 = []" by (simp add: fs0_def eval_defs)
  show ?thesis using commit_empty_stage_part0 [OF t, of exampleHex "''first''"] t by simp
qed

subsection \<open>Committing twice, with something staged\<close>

text \<open>
  \<^verbatim>\<open>src/main.go\<close>: with a user name configured, something staged and every staged path a
  file that can be read, a first commit returns, and a second commit right after it
  prints "Nothing to commit." and changes no file. The first commit leaves the log as it
  was (the digest was stored before) or appends the one line of the new commit.
\<close>

theorem commit_twice_stored_once:
  assumes "getUsername s = Some username"
    and "getTrackedFiles s \<noteq> []"
    and "computeHash_loop s (getTrackedFiles s) [] = Inr written"
  shows "fst (doCommit sha256Hex s [m1]) = None \<and>
         doCommit sha256Hex (snd (snd (doCommit sha256Hex s [m1]))) [m2] =
           (None, println ''Nothing to commit.'', snd (snd (doCommit sha256Hex s [m1]))) \<and>
         (readVcs logFile (snd (snd (doCommit sha256Hex s [m1]))) = readVcs logFile s \<or>
          readVcs logFile (snd (snd (doCommit sha256Hex s [m1]))) =
            Some (contents (readVcs logFile s) @
                  sha256Hex written @ '' '' @ username @ '' '' @ m1 @ [NL]))"
proof -
  define hash where "hash = sha256Hex written"
  define c where "c = \<lparr>Hash = hash, Username = username, Message = m1\<rparr>"
  define s1 where "s1 = snd (commitFiles hash (getTrackedFiles s) s)"
  define s2 where "s2 = snd (addLog c s1)"
  define s' where "s' = (if hasChanges s hash then s2 else s)"
  have v: "vcsDir s \<noteq> None" using getUsername_vcsDir [OF assms(1)] .
  have sv: "saveCommit sha256Hex s username m1 = (Inr (hasChanges s hash), s')"
    using saveCommit_run [OF v assms(3), of sha256Hex username m1]
    by (simp add: hash_def s'_def s2_def s1_def c_def)
  have run1: "doCommit sha256Hex s [m1] =
                (None, println (if hasChanges s hash then ''Changes are committed.''
                                else ''Nothing to commit.''), s')"
    using assms(1) sv by (simp add: doCommit_def)
  have k1: "tree s1 = tree s" "readVcs configFile s1 = readVcs configFile s"
    "readVcs indexFile s1 = readVcs indexFile s" "readVcs logFile s1 = readVcs logFile s"
    using commitFiles_keeps [of hash "getTrackedFiles s" s] by (simp_all add: s1_def)
  have h1: "hasChanges s1 hash = False"
    using commitFiles_stored [of s hash "getTrackedFiles s"] assms(2) by (simp add: s1_def)
  have v1: "vcsDir s1 \<noteq> None"
    using commitFiles_vcsDir [of s "getTrackedFiles s" hash] v by (simp add: s1_def)
  have k2: "tree s2 = tree s" "readVcs configFile s2 = readVcs configFile s"
    "readVcs indexFile s2 = readVcs indexFile s" "hasChanges s2 hash = False"
    using addLog_keeps(1-4) [of c s1] k1 h1 by (simp_all add: s2_def)
  have l2: "readVcs logFile s2 =
              Some (contents (readVcs logFile s) @ hash @ '' '' @ username @ '' '' @ m1 @ [NL])"
    using addLog_appends [OF v1, of c] k1(4) by (simp add: s2_def c_def)
  have k: "tree s' = tree s" "readVcs configFile s' = readVcs configFile s"
    "readVcs indexFile s' = readVcs indexFile s" "hasChanges s' hash = False"
    using k2 by (simp_all add: s'_def)
  have u': "getUsername s' = Some username"
    using assms(1) k(2) by (simp add: getUsername_def)
  have t': "getTrackedFiles s' = getTrackedFiles s"
    using k(3) by (simp add: getTrackedFiles_def)
  have v': "vcsDir s' \<noteq> None" using getUsername_vcsDir [OF u'] .
  have c': "computeHash_loop s' (getTrackedFiles s') [] = Inr written"
    using computeHash_loop_tree [OF k(1)] assms(3) t' by simp
  have sv2: "saveCommit sha256Hex s' username m2 = (Inr False, s')"
    using saveCommit_run [OF v' c', of sha256Hex username m2] k(4) by (simp add: hash_def)
  have run2: "doCommit sha256Hex s' [m2] = (None, println ''Nothing to commit.'', s')"
    using u' sv2 by (simp add: doCommit_def)
  have l: "readVcs logFile s' = readVcs logFile s \<or>
           readVcs logFile s' =
             Some (contents (readVcs logFile s) @ hash @ '' '' @ username @ '' '' @ m1 @ [NL])"
    using l2 by (simp add: s'_def)
  show ?thesis
    using run1 run2 l by (simp add: hash_def)
qed

theorem commit_twice_stored_once_witness:
  "doCommit exampleHex fs_staged [''first''] = (None, println ''Changes are committed.'', fs_committed) \<and>
   doCommit exampleHex fs_committed [''again''] = (None, println ''Nothing to commit.'', fs_committed)"
proof -
  have n: "getTrackedFiles fs_staged \<noteq> []" by (simp add: fs_staged_facts(2))
  show ?thesis
    using commit_twice_stored_once [OF fs_staged_facts(1) n fs_staged_facts(3), of exampleHex "''first''" "''again''"]
    by (simp add: scenario_commit)
qed


text \<open>
  \<^verbatim>\<open>src/unnamed/part_000\<close>: under the same conditions the first commit reports "Changes
  are commited." and the second prints "Nothing to commit." and changes no file, the
  index being empty by then.
\<close>

theorem commit_twice_part0:
  assumes "getUsername s = Some username"
    and "getTrackedFiles s \<noteq> []"
    and "computeHash_loop s (getTrackedFiles s) [] = Inr written"
  shows "fst (snd (doCommit_part0 sha256Hex s [m1])) = println ''Changes are commited.'' \<and>
         doCommit_part0 sha256Hex (snd (snd (doCommit_part0 sha256Hex s [m1]))) [m2] =
           (None, println ''Nothing to commit.'', snd (snd (doCommit_part0 sha256Hex s [m1])))"
  using doCommit_part0_run [OF assms, of sha256Hex m1]
  by (simp add: doCommit_part0_empty)

theorem commit_twice_part0_witness:
  "fst (snd (doCommit_part0 exampleHex fs_staged [''first''])) = println ''Changes are commited.'' \<and>
   fst (snd (doCommit_part0 exampleHex
               (snd (snd (doCommit_part0 exampleHex fs_staged [''first'']))) [''again'']))
     = println ''Nothing to commit.''"
proof -
  have n: "getTrackedFiles fs_staged \<noteq> []" by (simp add: fs_staged_facts(2))
  show ?thesis
    using commit_twice_part0 [OF fs_staged_facts(1) n fs_staged_facts(3), of exampleHex "''first''" "''again''"]
    by simp
qed

subsection \<open>Checkout writes no file\<close>

text \<open>
  Whatever its arguments and whatever the log holds, the checkout of \<^verbatim>\<open>src/main.go\<close>
  leaves every file as it was: the working tree, the index, the log and the store.
\<close>

theorem checkout_writes_no_file:
  "snd (snd (doCheckout s args)) = s"
  by (auto simp: doCheckout_def split: sum.splits option.splits)

subsection \<open>The digest is taken over the staged files in their order\<close>

text \<open>
  When \<^verbatim>\<open>computeHash\<close> returns, the hash is the digest of the staged files' bytes, one
  file after the other in the order of the list.
\<close>

theorem computeHash_concatenates:
  assumes "computeHash sha256Hex s files = Inr hash"
  shows "hash = sha256Hex (concat (map (\<lambda>f. case tree s f of Some (File bytes) \<Rightarrow> bytes | _ \<Rightarrow> []) files))"
proof -
  from assms obtain written where w: "computeHash_loop s files [] = Inr written"
    and h: "hash = sha256Hex written"
    by (auto simp: computeHash_def split: sum.splits)
  from computeHash_loop_concat [OF w] h show ?thesis by simp
qed

theorem computeHash_concatenates_witness:
  "computeHash exampleHex (fs_staged\<lparr>tree := [''a.txt'' \<mapsto> File ''hello'', ''b.txt'' \<mapsto> File ''bye'']\<rparr>)
     [''b.txt'', ''a.txt''] = Inr (exampleHex ''byehello'')"
proof -
  have c: "computeHash exampleHex (fs_staged\<lparr>tree := [''a.txt'' \<mapsto> File ''hello'', ''b.txt'' \<mapsto> File ''bye'']\<rparr>)
     [''b.txt'', ''a.txt''] = Inr (exampleHex ''byehello'')"
    by (simp add: computeHash_def)
  show ?thesis using computeHash_concatenates [OF c] c by simp
qed

end
